theory Spec2Isabelle
  imports Main
begin

section \<open>The editor shell of pIDEstyx: data model\<close>

text \<open>
  The theory embeds the component \<open>App\<close> of \<open>ide-core/ui/src/App.tsx\<close> (the richer
  variant) and the \<open>handleSave\<close> of the simpler variant of the same component. The
  component is event driven: every handler runs to completion on the UI thread.

  The window listeners of the second effect (lines 24-48) are called by the browser, not
  dispatched by React: \<open>handleMouseMove\<close> reads the \<open>isResizing\<close> of the render whose
  effect installed it, and keeps that value until React commits a render with another
  value and the effect installs the listeners again. So \<open>setIsResizing\<close> only queues the
  new value (\<open>queuedResizing\<close>), the event \<open>Commit\<close> is the commit of the next render
  together with its effect, and the field \<open>isResizing\<close> is the flag of the last committed
  render, which is the flag the installed listeners captured. Events may arrive between a
  \<open>setIsResizing\<close> and its commit.

  The other state variables are read only by handlers React itself dispatches, after it
  has flushed the pending updates, and are written by continuations that read no state;
  their updates are modelled as committed at once.

  A call of \<open>invoke\<close> is asynchronous: it records an outstanding request together with
  the continuation that awaits it; the event \<open>Settle\<close> delivers the host's response.
\<close>

text \<open>The value a rejected \<open>invoke\<close> carries; the shell never inspects it.\<close>

datatype hostError = HostError string

text \<open>The three host commands with their arguments.\<close>

datatype command = List_files string | Load_buffer | Save_buffer string

datatype payload = Files "string list" | Text string | NoValue

datatype response = Resolved payload | Rejected hostError

text \<open>
  The code that awaits a request: \<open>refreshFileList\<close> (lines 62-69), the promise chain of
  the first effect (lines 19-21), \<open>handleSave\<close> (lines 75-77), \<open>handleLoad\<close>
  (lines 79-82), and the \<open>handleSave\<close> of the simpler variant (its lines 12-19).
\<close>

datatype continuation =
  RefreshFileList | EffectLoad | HandleSave | HandleLoad | HandleSaveSimple

datatype logEntry = ConsoleLog string | ConsoleError string hostError

text \<open>
  What escapes a handler: a \<open>TypeError\<close> from calling \<open>layout\<close> on \<open>null\<close>, or the
  rejection of a promise nobody catches.
\<close>

datatype failure = TypeError | UnhandledRejection hostError

text \<open>The mounted widget, observed through the number of \<open>layout()\<close> calls it received.\<close>

datatype editor = Editor (layoutCalls: nat)

text \<open>The sidebar element, observed through \<open>style.width\<close> in pixels.\<close>

datatype sidebar = Sidebar (widthPx: int)

record app =
  code :: string
  projectRoot :: string
  fileList :: "string list"
  currentFileName :: string
  editorRef :: "editor option"
  editorContainerRef :: bool
  sidebarRef :: "sidebar option"
  isResizing :: bool
  queuedResizing :: bool
  observing :: bool
  pending :: "(nat \<times> command \<times> continuation) list"
  nextId :: nat
  console :: "logEntry list"
  uncaught :: "failure list"

text \<open>The state of the first render: the initial values of lines 7-15, no ref attached.\<close>

definition placeholder :: string where
  "placeholder = ''// Welcome to pIDEstyx IDE!'' @ [CHR 0x0A]"

definition initial :: app where
  "initial = \<lparr> code = placeholder, projectRoot = ''/path/to/project'', fileList = [],
     currentFileName = ''buffer.rs'', editorRef = None, editorContainerRef = False,
     sidebarRef = None, isResizing = False, queuedResizing = False, observing = False,
     pending = [], nextId = 0, console = [], uncaught = [] \<rparr>"

section \<open>Host calls\<close>

definition invoke :: "command \<Rightarrow> continuation \<Rightarrow> app \<Rightarrow> app" where
  "invoke c k s = s\<lparr> pending := pending s @ [(nextId s, c, k)], nextId := Suc (nextId s) \<rparr>"

definition refreshFileList :: "app \<Rightarrow> app" where
  "refreshFileList s = invoke (List_files (projectRoot s)) RefreshFileList s"

text \<open>The first effect (lines 17-22), run at mount and after \<open>projectRoot\<close> changed.\<close>

definition projectRootEffect :: "app \<Rightarrow> app" where
  "projectRootEffect s = invoke Load_buffer EffectLoad (refreshFileList s)"

definition handleSave :: "app \<Rightarrow> app" where
  "handleSave s = invoke (Save_buffer (code s)) HandleSave s"

definition handleSaveSimple :: "app \<Rightarrow> app" where
  "handleSaveSimple s = invoke (Save_buffer (code s)) HandleSaveSimple s"

definition handleLoad :: "app \<Rightarrow> app" where
  "handleLoad s = invoke Load_buffer HandleLoad s"

text \<open>
  What each continuation does with the response. A response whose payload is not of the
  command's result type changes nothing (the host answers each command with its type).
\<close>

fun settle :: "continuation \<Rightarrow> response \<Rightarrow> app \<Rightarrow> failure + app" where
  "settle RefreshFileList (Resolved (Files files)) s = Inr (s\<lparr> fileList := files \<rparr>)"
| "settle RefreshFileList (Rejected err) s =
     Inr (s\<lparr> console := console s @ [ConsoleError ''Failed to list files'' err] \<rparr>)"
| "settle EffectLoad (Resolved (Text contents)) s = Inr (s\<lparr> code := contents \<rparr>)"
| "settle EffectLoad (Rejected err) s =
     Inr (s\<lparr> console := console s @ [ConsoleLog ''No existing buffer found''] \<rparr>)"
| "settle HandleSave (Rejected err) s = Inl (UnhandledRejection err)"
| "settle HandleLoad (Resolved (Text contents)) s = Inr (s\<lparr> code := contents \<rparr>)"
| "settle HandleLoad (Rejected err) s = Inl (UnhandledRejection err)"
| "settle HandleSaveSimple (Resolved v) s =
     Inr (s\<lparr> console := console s @ [ConsoleLog ''Saved successfully''] \<rparr>)"
| "settle HandleSaveSimple (Rejected err) s =
     Inr (s\<lparr> console := console s @ [ConsoleError ''Failed to save'' err] \<rparr>)"
| "settle k r s = Inr s"

section \<open>Buffer and project root\<close>

text \<open>\<open>setCode(value || "")\<close>: \<open>undefined\<close> and the empty string both give the empty string.\<close>

definition handleEditorChange :: "string option \<Rightarrow> app \<Rightarrow> app" where
  "handleEditorChange v s =
     s\<lparr> code := (case v of None \<Rightarrow> [] | Some t \<Rightarrow> if t = [] then [] else t) \<rparr>"

text \<open>
  \<open>setProjectRoot\<close> from the input's \<open>onChange\<close>: an equal value leaves the dependency
  of the first effect unchanged, so the effect does not run.
\<close>

definition setProjectRoot :: "string \<Rightarrow> app \<Rightarrow> app" where
  "setProjectRoot r s =
     (if r = projectRoot s then s else projectRootEffect (s\<lparr> projectRoot := r \<rparr>))"

section \<open>Panel layout\<close>

text \<open>\<open>editorRef.current.layout()\<close>: a \<open>TypeError\<close> when the ref is \<open>null\<close>.\<close>

definition layout :: "app \<Rightarrow> failure + app" where
  "layout s =
     (case editorRef s of
        None \<Rightarrow> Inl TypeError
      | Some ed \<Rightarrow> Inr (s\<lparr> editorRef := Some (Editor (Suc (layoutCalls ed))) \<rparr>))"

text \<open>\<open>setIsResizing\<close> queues the value for the next render.\<close>

definition setIsResizing :: "bool \<Rightarrow> app \<Rightarrow> app" where
  "setIsResizing v s = s\<lparr> queuedResizing := v \<rparr>"

text \<open>
  The commit of the next render with the second effect: the listeners installed from now
  on carry the queued value of the flag.
\<close>

definition commit :: "app \<Rightarrow> app" where
  "commit s = s\<lparr> isResizing := queuedResizing s \<rparr>"

text \<open>The first argument is the \<open>isResizing\<close> the listener captured.\<close>

definition handleMouseMove :: "bool \<Rightarrow> int \<Rightarrow> app \<Rightarrow> failure + app" where
  "handleMouseMove resizing clientX s =
     (if \<not> resizing \<or> sidebarRef s = None then Inr s
      else
        let newWidth = max 150 clientX;
            s' = s\<lparr> sidebarRef := Some (Sidebar newWidth) \<rparr>
        in if editorRef s' \<noteq> None then layout s' else Inr s')"

definition handleMouseUp :: "app \<Rightarrow> failure + app" where
  "handleMouseUp s =
     (let s' = setIsResizing False s
      in if editorRef s' \<noteq> None then layout s' else Inr s')"

text \<open>The widget's \<open>onMount\<close> (lines 137-140).\<close>

definition onMount :: "editor \<Rightarrow> app \<Rightarrow> failure + app" where
  "onMount ed s = layout (s\<lparr> editorRef := Some ed \<rparr>)"

text \<open>The third effect (lines 50-60) and the callback of its observer.\<close>

definition observerEffect :: "app \<Rightarrow> app" where
  "observerEffect s =
     (if \<not> editorContainerRef s \<or> editorRef s = None then s else s\<lparr> observing := True \<rparr>)"

definition observerCallback :: "app \<Rightarrow> failure + app" where
  "observerCallback s = layout s"

text \<open>
  The first commit: React attaches the refs of the rendered elements (the sidebar with its
  width of 250px, the editor container) and runs the effects in the order they are written.
  The second effect only installs the window listeners.
\<close>

definition mount :: "app \<Rightarrow> app" where
  "mount s =
     observerEffect (projectRootEffect
       (s\<lparr> sidebarRef := Some (Sidebar 250), editorContainerRef := True \<rparr>))"

section \<open>Events\<close>

datatype event =
  InputChange string
| EditorChange "string option"
| ClickSave
| ClickLoad
| MouseDown
| MouseMove int
| MouseUp
| EditorMount
| ResizeObserved
| Settle nat response
| Commit

fun lookup :: "nat \<Rightarrow> (nat \<times> 'a) list \<Rightarrow> 'a option" where
  "lookup i [] = None"
| "lookup i ((j, v) # rest) = (if i = j then Some v else lookup i rest)"

definition handle :: "event \<Rightarrow> app \<Rightarrow> failure + app" where
  "handle e s =
     (case e of
        InputChange r \<Rightarrow> Inr (setProjectRoot r s)
      | EditorChange v \<Rightarrow> Inr (handleEditorChange v s)
      | ClickSave \<Rightarrow> Inr (handleSave s)
      | ClickLoad \<Rightarrow> Inr (handleLoad s)
      | MouseDown \<Rightarrow> Inr (setIsResizing True s)
      | MouseMove x \<Rightarrow> handleMouseMove (isResizing s) x s
      | MouseUp \<Rightarrow> handleMouseUp s
      | EditorMount \<Rightarrow> onMount (Editor 0) s
      | ResizeObserved \<Rightarrow> (if observing s then observerCallback s else Inr s)
      | Settle i r \<Rightarrow>
          (case lookup i (pending s) of
             None \<Rightarrow> Inr s
           | Some (c, k) \<Rightarrow> settle k r s)
      | Commit \<Rightarrow> Inr (commit s))"

text \<open>
  One turn of the event loop. A settled request is no longer outstanding. A failure that
  escapes the handler is reported and the state stays as it was: every handler that can
  fail does so before its first assignment.
\<close>

definition settled :: "event \<Rightarrow> app \<Rightarrow> app" where
  "settled e s =
     (case e of
        Settle i r \<Rightarrow> s\<lparr> pending := filter (\<lambda>p. fst p \<noteq> i) (pending s) \<rparr>
      | _ \<Rightarrow> s)"

definition step :: "event \<Rightarrow> app \<Rightarrow> app" where
  "step e s =
     (case handle e s of
        Inl f \<Rightarrow> settled e (s\<lparr> uncaught := uncaught s @ [f] \<rparr>)
      | Inr s' \<Rightarrow> settled e s')"

fun run :: "event list \<Rightarrow> app \<Rightarrow> app" where
  "run [] s = s"
| "run (e # es) s = run es (step e s)"

section \<open>Observations and invariants\<close>

text \<open>
  The panel geometry: the drag flag the listeners carry, the queued one, and the sidebar
  with its width.
\<close>

definition panel :: "app \<Rightarrow> bool \<times> bool \<times> sidebar option" where
  "panel s = (isResizing s, queuedResizing s, sidebarRef s)"

text \<open>
  The observer exists only if the editor handle was set when the third effect ran; no
  \<open>TypeError\<close> has been reported.
\<close>

definition handleGuarded :: "app \<Rightarrow> bool" where
  "handleGuarded s = (observing s \<longrightarrow> editorRef s \<noteq> None)"

definition quiet :: "app \<Rightarrow> bool" where
  "quiet s = (handleGuarded s \<and> TypeError \<notin> set (uncaught s))"

text \<open>The identifiers of the outstanding requests are below the next one to be issued.\<close>

definition freshIds :: "app \<Rightarrow> bool" where
  "freshIds s = list_all (\<lambda>p. fst p < nextId s) (pending s)"

text \<open>
  The root-change race: the root changes to \<open>a\<close>, then to \<open>b\<close> while the listing of
  \<open>a\<close> is outstanding; the listing of \<open>b\<close> resolves first with \<open>fb\<close>, the listing of
  \<open>a\<close> last with \<open>fa\<close>.
\<close>

definition rootChangeRace ::
  "string \<Rightarrow> string \<Rightarrow> string list \<Rightarrow> string list \<Rightarrow> app \<Rightarrow> app" where
  "rootChangeRace a b fa fb s =
     run [InputChange a, InputChange b,
          Settle (nextId s + 2) (Resolved (Files fb)),
          Settle (nextId s) (Resolved (Files fa))] s"

section \<open>Rendering of the file list\<close>

text \<open>
  \<open>file.split("/").pop()\<close> of lines 113-117: \<open>split\<close> on a one-character separator
  (an empty string gives one empty piece), and \<open>pop\<close>, which is \<open>undefined\<close> on an
  empty array. A row is the \<open>key\<close> of the element and its text.
\<close>

fun js_split :: "char \<Rightarrow> string \<Rightarrow> string list" where
  "js_split sep [] = [[]]"
| "js_split sep (c # cs) =
     (if c = sep then [] # js_split sep cs
      else (case js_split sep cs of [] \<Rightarrow> [[c]] | w # ws \<Rightarrow> (c # w) # ws))"

definition pop :: "'a list \<Rightarrow> 'a option" where
  "pop xs = (if xs = [] then None else Some (last xs))"

definition fileRows :: "string list \<Rightarrow> (string \<times> string option) list" where
  "fileRows files = map (\<lambda>file. (file, pop (js_split (CHR ''/'') file))) files"

text \<open>
  The leaf name in the words of the specification: the substring after the final path
  separator. It is compared with the rendering above.
\<close>

definition afterFinalSeparator :: "string \<Rightarrow> string" where
  "afterFinalSeparator path = rev (takeWhile (\<lambda>c. c \<noteq> CHR ''/'') (rev path))"

section \<open>The host\<close>

text \<open>
  Modelled from the spec: the host process that answers \<open>load_buffer\<close>, \<open>save_buffer\<close>
  and \<open>list_files\<close>; its implementation is not among the sources. \<open>load_buffer\<close>
  fetches the persisted buffer content and fails when no buffer exists; \<open>save_buffer\<close>
  persists the given text verbatim and atomically, or fails and persists nothing;
  \<open>list_files\<close> leaves the classification of a root to the host.
\<close>

record host =
  persisted :: "string option"
  writable :: bool
  listing :: "string \<Rightarrow> hostError + string list"

definition hostExec :: "command \<Rightarrow> host \<Rightarrow> response \<times> host" where
  "hostExec c h =
     (case c of
        Load_buffer \<Rightarrow>
          (case persisted h of
             None \<Rightarrow> (Rejected (HostError ''NotFound''), h)
           | Some t \<Rightarrow> (Resolved (Text t), h))
      | Save_buffer contents \<Rightarrow>
          (if writable h then (Resolved NoValue, h\<lparr> persisted := Some contents \<rparr>)
           else (Rejected (HostError ''persistence failure''), h))
      | List_files root \<Rightarrow>
          (case listing h root of
             Inl e \<Rightarrow> (Rejected e, h)
           | Inr files \<Rightarrow> (Resolved (Files files), h)))"

text \<open>The host executes the outstanding request \<open>i\<close> and its response is delivered.\<close>

definition serve :: "nat \<Rightarrow> app \<times> host \<Rightarrow> app \<times> host" where
  "serve i sh =
     (case lookup i (pending (fst sh)) of
        None \<Rightarrow> sh
      | Some (c, k) \<Rightarrow>
          (step (Settle i (fst (hostExec c (snd sh)))) (fst sh), snd (hostExec c (snd sh))))"

text \<open>
  A click on Load, served by the host, and at once a click on Save, served by the host;
  \<open>savedContents\<close> is the command that this Save sends.
\<close>

definition loadThenSave :: "app \<Rightarrow> host \<Rightarrow> app \<times> host" where
  "loadThenSave s h =
     (let sh1 = serve (nextId s) (step ClickLoad s, h)
      in serve (nextId (fst sh1)) (step ClickSave (fst sh1), snd sh1))"

definition savedContents :: "app \<Rightarrow> host \<Rightarrow> command option" where
  "savedContents s h =
     (let s1 = fst (serve (nextId s) (step ClickLoad s, h))
      in map_option fst (lookup (nextId s1) (pending (step ClickSave s1))))"

section \<open>Panel layout: proofs\<close>

lemmas shell_defs = step_def handle_def settled_def setProjectRoot_def projectRootEffect_def
  refreshFileList_def invoke_def mount_def observerEffect_def initial_def handleSave_def
  handleLoad_def handleEditorChange_def handleSaveSimple_def setIsResizing_def commit_def

lemma setIsResizing_fields [simp]:
  "isResizing (setIsResizing v s) = isResizing s"
  "queuedResizing (setIsResizing v s) = v"
  "sidebarRef (setIsResizing v s) = sidebarRef s"
  "editorRef (setIsResizing v s) = editorRef s"
  "observing (setIsResizing v s) = observing s"
  "pending (setIsResizing v s) = pending s"
  "nextId (setIsResizing v s) = nextId s"
  "uncaught (setIsResizing v s) = uncaught s"
  by (simp_all add: setIsResizing_def)

lemma commit_fields [simp]:
  "isResizing (commit s) = queuedResizing s"
  "queuedResizing (commit s) = queuedResizing s"
  "sidebarRef (commit s) = sidebarRef s"
  "editorRef (commit s) = editorRef s"
  "observing (commit s) = observing s"
  "pending (commit s) = pending s"
  "nextId (commit s) = nextId s"
  "uncaught (commit s) = uncaught s"
  by (simp_all add: commit_def)

lemma layout_sidebarRef: "layout s = Inr s' \<Longrightarrow> sidebarRef s' = sidebarRef s"
  by (auto simp: layout_def split: option.splits)

lemma settle_sidebarRef: "settle k r s = Inr s' \<Longrightarrow> sidebarRef s' = sidebarRef s"
  by (induction k r s rule: settle.induct) auto

lemma invoke_sidebarRef [simp]: "sidebarRef (invoke c k s) = sidebarRef s"
  by (simp add: invoke_def)

lemma step_sidebar_mounted:
  assumes "sidebarRef s \<noteq> None"
  shows "sidebarRef (step e s) \<noteq> None"
proof (cases "handle e s")
  case (Inl f)
  with assms show ?thesis
    by (cases e) (simp_all add: step_def settled_def)
next
  case (Inr s')
  have "sidebarRef s' \<noteq> None"
  proof (cases e)
    case (MouseMove x)
    with Inr assms show ?thesis
      by (auto simp: handle_def handleMouseMove_def Let_def
          dest: layout_sidebarRef split: if_splits)
  next
    case (Settle i r)
    with Inr assms show ?thesis
      by (auto simp: handle_def dest: settle_sidebarRef split: option.splits)
  qed (use Inr assms in \<open>auto simp: handle_def setProjectRoot_def projectRootEffect_def
        refreshFileList_def handleEditorChange_def handleSave_def handleLoad_def
        handleMouseUp_def onMount_def observerCallback_def Let_def
        dest: layout_sidebarRef split: if_splits\<close>)
  with Inr show ?thesis
    by (cases e) (simp_all add: step_def settled_def)
qed

lemma run_sidebar_mounted: "sidebarRef s \<noteq> None \<Longrightarrow> sidebarRef (run es s) \<noteq> None"
proof (induction es arbitrary: s)
  case Nil
  then show ?case by simp
next
  case (Cons e es)
  from Cons.prems have "sidebarRef (step e s) \<noteq> None"
    by (rule step_sidebar_mounted)
  then have "sidebarRef (run es (step e s)) \<noteq> None"
    by (rule Cons.IH)
  then show ?case by simp
qed

lemma mount_sidebarRef: "sidebarRef (mount s) = Some (Sidebar 250)"
  by (simp add: mount_def observerEffect_def projectRootEffect_def refreshFileList_def)

lemma run_append: "run (es @ fs) s = run fs (run es s)"
  by (induction es arbitrary: s) simp_all

subsection \<open>Clamping of the sidebar width\<close>

lemma mouseMove_width:
  assumes "isResizing s" and "sidebarRef s \<noteq> None"
  shows "sidebarRef (step (MouseMove w) s) = Some (Sidebar (max 150 w))"
proof (cases "editorRef s")
  case None
  with assms show ?thesis
    by (simp add: step_def handle_def handleMouseMove_def settled_def Let_def)
next
  case (Some ed)
  with assms show ?thesis
    by (simp add: step_def handle_def handleMouseMove_def settled_def Let_def layout_def)
qed

text \<open>
  Claim C2. In every state the mounted component can reach, a pointer move to x-coordinate
  \<open>w\<close> delivered while \<open>isResizing\<close> is true sets the width of the sidebar to
  \<open>max 150 w\<close>; a move to 80 gives 150.
\<close>

theorem resize_width_clamped:
  "isResizing (run es (mount initial)) \<Longrightarrow>
   map_option widthPx (sidebarRef (step (MouseMove w) (run es (mount initial))))
     = Some (max 150 w)"
  by (simp add: mouseMove_width run_sidebar_mounted mount_sidebarRef)

theorem resize_width_clamped_witness:
  "isResizing (run [MouseDown, Commit] (mount initial)) \<and>
   map_option widthPx
     (sidebarRef (step (MouseMove 80) (run [MouseDown, Commit] (mount initial))))
     = Some 150"
proof -
  have h: "isResizing (run [MouseDown, Commit] (mount initial))"
    by (simp add: step_def handle_def settled_def)
  show ?thesis
    using h resize_width_clamped [OF h, of 80] by simp
qed

subsection \<open>The gate of the drag flag\<close>

lemma step_InputChange: "step (InputChange r) s = setProjectRoot r s"
  by (simp add: step_def handle_def settled_def)

lemma step_EditorChange: "step (EditorChange v) s = handleEditorChange v s"
  by (simp add: step_def handle_def settled_def)

lemma step_ClickSave: "step ClickSave s = handleSave s"
  by (simp add: step_def handle_def settled_def)

lemma step_ClickLoad: "step ClickLoad s = handleLoad s"
  by (simp add: step_def handle_def settled_def)

lemma step_MouseDown: "step MouseDown s = setIsResizing True s"
  by (simp add: step_def handle_def settled_def)

lemma step_Commit: "step Commit s = commit s"
  by (simp add: step_def handle_def settled_def)

lemma layout_panel: "layout s = Inr s' \<Longrightarrow> panel s' = panel s"
  by (auto simp: layout_def panel_def split: option.splits)

lemma settle_panel: "settle k r s = Inr s' \<Longrightarrow> panel s' = panel s"
  by (induction k r s rule: settle.induct) (auto simp: panel_def)

lemma settled_panel [simp]: "panel (settled e s) = panel s"
  by (cases e) (simp_all add: settled_def panel_def)

lemma uncaught_panel [simp]: "panel (s\<lparr> uncaught := u \<rparr>) = panel s"
  by (simp add: panel_def)

text \<open>No handler but the one of the drag handle queues a true flag.\<close>

lemma handle_queued:
  assumes "e \<noteq> MouseDown" and "\<not> queuedResizing s" and "handle e s = Inr s'"
  shows "\<not> queuedResizing s'"
proof (cases e)
  case (MouseMove x)
  with assms show ?thesis
    by (auto simp: handle_def handleMouseMove_def Let_def layout_def
        split: if_splits option.splits)
next
  case MouseUp
  with assms show ?thesis
    by (auto simp: handle_def handleMouseUp_def Let_def layout_def
        split: if_splits option.splits)
next
  case EditorMount
  with assms show ?thesis
    by (auto simp: handle_def onMount_def layout_def)
next
  case ResizeObserved
  with assms show ?thesis
    by (auto simp: handle_def observerCallback_def panel_def
        dest: layout_panel split: if_splits)
next
  case (Settle i r)
  with assms show ?thesis
    by (auto simp: handle_def panel_def dest: settle_panel split: option.splits)
qed (use assms in \<open>auto simp: handle_def setProjectRoot_def projectRootEffect_def
      refreshFileList_def invoke_def handleEditorChange_def handleSave_def handleLoad_def
      split: if_splits\<close>)

lemma settled_queued [simp]: "queuedResizing (settled e s) = queuedResizing s"
  by (cases e) (simp_all add: settled_def)

lemma step_queued:
  assumes "e \<noteq> MouseDown" and "\<not> queuedResizing s"
  shows "\<not> queuedResizing (step e s)"
proof (cases "handle e s")
  case (Inl f)
  with assms(2) show ?thesis
    by (simp add: step_def)
next
  case (Inr s')
  from assms Inr have "\<not> queuedResizing s'" by (rule handle_queued)
  with Inr show ?thesis
    by (simp add: step_def)
qed

lemma run_queued:
  "MouseDown \<notin> set es \<Longrightarrow> \<not> queuedResizing s \<Longrightarrow> \<not> queuedResizing (run es s)"
proof (induction es arbitrary: s)
  case Nil
  then show ?case by simp
next
  case (Cons e es)
  then have e: "e \<noteq> MouseDown" and es: "MouseDown \<notin> set es" by auto
  from e Cons.prems(2) have "\<not> queuedResizing (step e s)" by (rule step_queued)
  with es have "\<not> queuedResizing (run es (step e s))" by (rule Cons.IH)
  then show ?case by simp
qed

text \<open>
  Once the listeners carry a false flag and no true flag is queued, only the drag handle
  changes the panel.
\<close>

lemma handle_panel:
  assumes "e \<noteq> MouseDown" and "\<not> isResizing s" and "\<not> queuedResizing s"
    and "handle e s = Inr s'"
  shows "panel s' = panel s"
proof (cases e)
  case (MouseMove x)
  with assms show ?thesis by (simp add: handle_def handleMouseMove_def)
next
  case MouseUp
  with assms show ?thesis
    by (auto simp: handle_def handleMouseUp_def Let_def panel_def layout_def
        split: if_splits option.splits)
next
  case EditorMount
  with assms show ?thesis
    by (auto simp: handle_def onMount_def panel_def layout_def)
next
  case ResizeObserved
  with assms show ?thesis
    by (auto simp: handle_def observerCallback_def dest: layout_panel split: if_splits)
next
  case (Settle i r)
  with assms show ?thesis
    by (auto simp: handle_def dest: settle_panel split: option.splits)
next
  case Commit
  with assms show ?thesis
    by (auto simp: handle_def panel_def)
qed (use assms in \<open>auto simp: handle_def panel_def setProjectRoot_def projectRootEffect_def
      refreshFileList_def invoke_def handleEditorChange_def handleSave_def handleLoad_def
      split: if_splits\<close>)

lemma step_panel:
  assumes "e \<noteq> MouseDown" and "\<not> isResizing s" and "\<not> queuedResizing s"
  shows "panel (step e s) = panel s"
proof (cases "handle e s")
  case (Inl f)
  then show ?thesis by (simp add: step_def)
next
  case (Inr s')
  with assms have "panel s' = panel s" by (simp add: handle_panel)
  with Inr show ?thesis by (simp add: step_def)
qed

lemma run_panel:
  "MouseDown \<notin> set es \<Longrightarrow> \<not> isResizing s \<Longrightarrow> \<not> queuedResizing s \<Longrightarrow>
   panel (run es s) = panel s"
proof (induction es arbitrary: s)
  case Nil
  then show ?case by simp
next
  case (Cons e es)
  then have e: "e \<noteq> MouseDown" and es: "MouseDown \<notin> set es" by auto
  from e Cons.prems(2,3) have p: "panel (step e s) = panel s" by (rule step_panel)
  with Cons.prems(2,3) have "\<not> isResizing (step e s)" and "\<not> queuedResizing (step e s)"
    by (simp_all add: panel_def)
  with es have "panel (run es (step e s)) = panel (step e s)" by (rule Cons.IH)
  with p show ?case by simp
qed

lemma mouseUp_queued: "\<not> queuedResizing (step MouseUp s)"
  by (auto simp: step_def handle_def handleMouseUp_def Let_def layout_def settled_def
      split: option.splits)

text \<open>
  Claim C7 as stated fails. The drag handle is pressed, the render is committed and a move
  sets the width to 300. The pointer-up then queues \<open>isResizing = false\<close>, but moves
  dispatched before React commits that render still run the listener that captured
  \<open>true\<close>: the width follows them to 400 and then to 150.
\<close>

theorem move_before_commit_counterexample:
  "sidebarRef (run [MouseDown, Commit, MouseMove 300, MouseUp] (mount initial))
     = Some (Sidebar 300) \<and>
   \<not> queuedResizing (run [MouseDown, Commit, MouseMove 300, MouseUp] (mount initial)) \<and>
   sidebarRef (run [MouseDown, Commit, MouseMove 300, MouseUp, MouseMove 400]
     (mount initial)) = Some (Sidebar 400) \<and>
   sidebarRef (run [MouseDown, Commit, MouseMove 300, MouseUp, MouseMove 400, MouseMove 80]
     (mount initial)) = Some (Sidebar 150)"
  by (simp add: shell_defs handleMouseMove_def handleMouseUp_def Let_def)

text \<open>
  Claim C7, as amended. After a pointer-up, whatever the state it arrived in, and once React
  has committed the render it asked for (\<open>es1\<close> are the events that arrive before that
  commit), no later event \<open>es2\<close> changes the sidebar, hence its width, as long as the drag
  handle is not pressed again: every pointer move, also a synthetic one, runs a listener
  that captured \<open>isResizing = false\<close> and returns at the gate.
\<close>

theorem no_width_change_after_committed_pointer_up:
  assumes "MouseDown \<notin> set es1" and "MouseDown \<notin> set es2"
  shows "sidebarRef (run es2 (step Commit (run es1 (step MouseUp s))))
           = sidebarRef (run es1 (step MouseUp s))"
proof -
  define s1 where "s1 = run es1 (step MouseUp s)"
  have q: "\<not> queuedResizing s1"
    unfolding s1_def using assms(1) mouseUp_queued by (rule run_queued)
  then have "\<not> isResizing (step Commit s1)" and "\<not> queuedResizing (step Commit s1)"
    by (simp_all add: step_Commit)
  with assms(2) have "panel (run es2 (step Commit s1)) = panel (step Commit s1)"
    by (rule run_panel)
  then have "sidebarRef (run es2 (step Commit s1)) = sidebarRef s1"
    by (simp add: panel_def step_Commit)
  then show ?thesis by (simp add: s1_def)
qed

theorem no_width_change_after_committed_pointer_up_witness:
  "MouseDown \<notin> set [MouseMove 400] \<and> MouseDown \<notin> set [MouseMove 500, MouseMove 80] \<and>
   sidebarRef (run [MouseMove 400] (step MouseUp
     (run [MouseDown, Commit, MouseMove 300] (mount initial)))) = Some (Sidebar 400) \<and>
   sidebarRef (run [MouseMove 500, MouseMove 80] (step Commit (run [MouseMove 400]
     (step MouseUp (run [MouseDown, Commit, MouseMove 300] (mount initial))))))
     = Some (Sidebar 400)"
proof -
  have h1: "MouseDown \<notin> set [MouseMove 400]"
    and h2: "MouseDown \<notin> set [MouseMove 500, MouseMove 80]"
    by simp_all
  have w: "sidebarRef (run [MouseMove 400] (step MouseUp
      (run [MouseDown, Commit, MouseMove 300] (mount initial)))) = Some (Sidebar 400)"
    by (simp add: shell_defs handleMouseMove_def handleMouseUp_def Let_def)
  from no_width_change_after_committed_pointer_up
    [OF h1 h2, of "run [MouseDown, Commit, MouseMove 300] (mount initial)"] w h1 h2
  show ?thesis by simp
qed

subsection \<open>The editor handle\<close>

lemma layout_guard: "layout s = Inr s' \<Longrightarrow> observing s' = observing s \<and> editorRef s' \<noteq> None"
  by (auto simp: layout_def split: option.splits)

lemma settle_guard:
  "settle k r s = Inr s' \<Longrightarrow> observing s' = observing s \<and> editorRef s' = editorRef s"
  by (induction k r s rule: settle.induct) auto

lemma settle_not_TypeError: "settle k r s \<noteq> Inl TypeError"
  by (induction k r s rule: settle.induct) auto

lemma invoke_guard [simp]:
  "observing (invoke c k s) = observing s" "editorRef (invoke c k s) = editorRef s"
  by (simp_all add: invoke_def)

lemma handle_not_TypeError:
  assumes "handleGuarded s"
  shows "handle e s \<noteq> Inl TypeError"
proof (cases e)
  case (MouseMove x)
  then show ?thesis
    by (auto simp: handle_def handleMouseMove_def Let_def layout_def split: option.splits)
next
  case MouseUp
  then show ?thesis
    by (auto simp: handle_def handleMouseUp_def Let_def layout_def split: option.splits)
next
  case EditorMount
  then show ?thesis by (simp add: handle_def onMount_def layout_def)
next
  case ResizeObserved
  with assms show ?thesis
    by (auto simp: handle_def observerCallback_def layout_def handleGuarded_def
        split: option.splits)
next
  case (Settle i r)
  then show ?thesis
    by (auto simp: handle_def settle_not_TypeError split: option.splits)
qed (simp_all add: handle_def)

lemma handle_guard:
  assumes "handle e s = Inr s'"
  shows "observing s' = observing s \<and> (editorRef s \<noteq> None \<longrightarrow> editorRef s' \<noteq> None)"
proof (cases e)
  case (MouseMove x)
  with assms show ?thesis
    by (auto simp: handle_def handleMouseMove_def Let_def layout_def
        split: if_splits option.splits)
next
  case MouseUp
  with assms show ?thesis
    by (auto simp: handle_def handleMouseUp_def Let_def layout_def
        split: if_splits option.splits)
next
  case EditorMount
  with assms show ?thesis by (auto simp: handle_def onMount_def layout_def)
next
  case ResizeObserved
  with assms show ?thesis
    by (auto simp: handle_def observerCallback_def dest: layout_guard split: if_splits)
next
  case (Settle i r)
  with assms show ?thesis
    by (auto simp: handle_def dest: settle_guard split: option.splits)
qed (use assms in \<open>auto simp: handle_def setProjectRoot_def projectRootEffect_def
      refreshFileList_def handleEditorChange_def handleSave_def handleLoad_def
      split: if_splits\<close>)

lemma settled_guard [simp]:
  "observing (settled e s) = observing s" "editorRef (settled e s) = editorRef s"
  "uncaught (settled e s) = uncaught s"
  by (cases e; simp add: settled_def)+

lemma step_quiet:
  assumes "quiet s"
  shows "quiet (step e s)"
proof (cases "handle e s")
  case (Inl f)
  from assms have "handle e s \<noteq> Inl TypeError"
    by (simp add: quiet_def handle_not_TypeError)
  with Inl have "f \<noteq> TypeError" by auto
  with Inl assms show ?thesis
    by (auto simp: step_def quiet_def handleGuarded_def)
next
  case (Inr s')
  from Inr have g: "observing s' = observing s \<and> (editorRef s \<noteq> None \<longrightarrow> editorRef s' \<noteq> None)"
    by (rule handle_guard)
  have "uncaught s' = uncaught s"
  proof (cases e)
    case (MouseMove x)
    with Inr show ?thesis
      by (auto simp: handle_def handleMouseMove_def Let_def layout_def
          split: if_splits option.splits)
  next
    case MouseUp
    with Inr show ?thesis
      by (auto simp: handle_def handleMouseUp_def Let_def layout_def
          split: if_splits option.splits)
  next
    case EditorMount
    with Inr show ?thesis by (auto simp: handle_def onMount_def layout_def)
  next
    case ResizeObserved
    with Inr show ?thesis
      by (auto simp: handle_def observerCallback_def layout_def split: if_splits option.splits)
  next
    case (Settle i r)
    have "\<And>k. settle k r s = Inr s' \<Longrightarrow> uncaught s' = uncaught s"
      subgoal for k by (induction k r s rule: settle.induct) auto
      done
    with Settle Inr show ?thesis
      by (auto simp: handle_def split: option.splits)
  qed (use Inr in \<open>auto simp: handle_def setProjectRoot_def projectRootEffect_def
        refreshFileList_def handleEditorChange_def handleSave_def handleLoad_def invoke_def
        split: if_splits\<close>)
  with Inr g assms show ?thesis
    by (auto simp: step_def quiet_def handleGuarded_def)
qed

lemma run_quiet: "quiet s \<Longrightarrow> quiet (run es s)"
  by (induction es arbitrary: s) (simp_all add: step_quiet)

lemma mount_quiet: "quiet (mount (initial\<lparr> editorRef := ed \<rparr>))"
  by (simp add: quiet_def handleGuarded_def mount_def observerEffect_def projectRootEffect_def
      refreshFileList_def invoke_def initial_def)

text \<open>
  Claim C8. Whether or not the widget was mounted before the effects ran (\<open>ed\<close>), and
  whatever events follow, no handler calls \<open>layout()\<close> through an unset handle: in
  every reachable state every event is handled without a \<open>TypeError\<close>, and none was
  ever reported. The pointer handlers test the handle themselves; the observer callback
  does not, but the observer exists only where the handle is set, and nothing unsets it.
\<close>

theorem layout_never_through_unset_handle:
  "handle e (run es (mount (initial\<lparr> editorRef := ed \<rparr>))) \<noteq> Inl TypeError \<and>
   TypeError \<notin> set (uncaught (run es (mount (initial\<lparr> editorRef := ed \<rparr>))))"
proof -
  have "quiet (run es (mount (initial\<lparr> editorRef := ed \<rparr>)))"
    by (rule run_quiet) (rule mount_quiet)
  then show ?thesis
    by (simp add: quiet_def handle_not_TypeError)
qed

section \<open>Host calls: proofs\<close>

lemma lookup_append:
  "lookup i (xs @ ys) = (case lookup i xs of None \<Rightarrow> lookup i ys | Some v \<Rightarrow> Some v)"
  by (induction xs) auto

lemma lookup_fresh: "list_all (\<lambda>p. fst p < n) xs \<Longrightarrow> n \<le> i \<Longrightarrow> lookup i xs = None"
  by (induction xs) auto

lemma lookup_filter:
  "lookup i (filter (\<lambda>p. fst p \<noteq> j) xs) = (if i = j then None else lookup i xs)"
  by (induction xs) auto

lemma invoke_fresh: "freshIds s \<Longrightarrow> freshIds (invoke c k s)"
  by (auto simp: freshIds_def invoke_def list_all_iff)

lemma settle_pending:
  "settle k r s = Inr s' \<Longrightarrow> pending s' = pending s \<and> nextId s' = nextId s"
  by (induction k r s rule: settle.induct) auto

lemma layout_pending:
  "layout s = Inr s' \<Longrightarrow> pending s' = pending s \<and> nextId s' = nextId s"
  by (auto simp: layout_def split: option.splits)

lemma handle_fresh:
  assumes "freshIds s" and "handle e s = Inr s'"
  shows "freshIds s'"
proof (cases e)
  case (InputChange r)
  from assms(1) have "freshIds (s\<lparr> projectRoot := r \<rparr>)"
    by (simp add: freshIds_def)
  then have "freshIds (projectRootEffect (s\<lparr> projectRoot := r \<rparr>))"
    by (simp add: projectRootEffect_def refreshFileList_def invoke_fresh)
  with InputChange assms show ?thesis
    by (auto simp: handle_def setProjectRoot_def split: if_splits)
next
  case (EditorChange v)
  with assms show ?thesis by (auto simp: handle_def handleEditorChange_def freshIds_def)
next
  case ClickSave
  with assms show ?thesis by (auto simp: handle_def handleSave_def invoke_fresh)
next
  case ClickLoad
  with assms show ?thesis by (auto simp: handle_def handleLoad_def invoke_fresh)
next
  case MouseDown
  with assms show ?thesis by (auto simp: handle_def freshIds_def)
next
  case (MouseMove x)
  with assms show ?thesis
    by (auto simp: handle_def handleMouseMove_def Let_def freshIds_def
        dest!: layout_pending split: if_splits)
next
  case MouseUp
  with assms show ?thesis
    by (auto simp: handle_def handleMouseUp_def Let_def freshIds_def
        dest!: layout_pending split: if_splits)
next
  case EditorMount
  with assms show ?thesis
    by (auto simp: handle_def onMount_def freshIds_def dest!: layout_pending)
next
  case ResizeObserved
  with assms show ?thesis
    by (auto simp: handle_def observerCallback_def freshIds_def
        dest!: layout_pending split: if_splits)
next
  case (Settle i r)
  with assms show ?thesis
    by (auto simp: handle_def freshIds_def dest!: settle_pending split: option.splits)
next
  case Commit
  with assms show ?thesis by (auto simp: handle_def freshIds_def)
qed

lemma settled_fresh: "freshIds s \<Longrightarrow> freshIds (settled e s)"
  by (cases e) (auto simp: settled_def freshIds_def list_all_iff)

lemma step_fresh:
  assumes "freshIds s"
  shows "freshIds (step e s)"
proof (cases "handle e s")
  case (Inl f)
  from assms have "freshIds (s\<lparr> uncaught := uncaught s @ [f] \<rparr>)"
    by (simp add: freshIds_def)
  with Inl show ?thesis by (simp add: step_def settled_fresh)
next
  case (Inr s')
  with assms have "freshIds s'" by (simp add: handle_fresh)
  with Inr show ?thesis by (simp add: step_def settled_fresh)
qed

lemma run_fresh: "freshIds s \<Longrightarrow> freshIds (run es s)"
  by (induction es arbitrary: s) (simp_all add: step_fresh)

lemma mount_initial_fresh: "freshIds (mount initial)"
  by (simp add: freshIds_def mount_def observerEffect_def projectRootEffect_def
      refreshFileList_def invoke_def initial_def)

lemma reachable_fresh: "freshIds (run es (mount initial))"
  by (rule run_fresh) (rule mount_initial_fresh)

text \<open>A root change issues its two requests.\<close>

lemma step_rootChange:
  "r \<noteq> projectRoot s \<Longrightarrow>
   step (InputChange r) s =
     s\<lparr> projectRoot := r,
        pending := pending s @ [(nextId s, List_files r, RefreshFileList),
                                 (Suc (nextId s), Load_buffer, EffectLoad)],
        nextId := Suc (Suc (nextId s)) \<rparr>"
  by (simp add: step_InputChange setProjectRoot_def projectRootEffect_def refreshFileList_def
      invoke_def)

lemma step_Settle_files:
  "lookup i (pending s) = Some (c, RefreshFileList) \<Longrightarrow>
   step (Settle i (Resolved (Files fs))) s =
     s\<lparr> fileList := fs, pending := filter (\<lambda>p. fst p \<noteq> i) (pending s) \<rparr>"
  by (simp add: step_def handle_def settled_def)

lemma step_Settle_files_rejected:
  "lookup i (pending s) = Some (c, RefreshFileList) \<Longrightarrow>
   step (Settle i (Rejected err)) s =
     s\<lparr> console := console s @ [ConsoleError ''Failed to list files'' err],
        pending := filter (\<lambda>p. fst p \<noteq> i) (pending s) \<rparr>"
  by (simp add: step_def handle_def settled_def)

text \<open>
  Claim C5. When the response to an outstanding \<open>refreshFileList\<close> request arrives, a
  success replaces the file list by the result, whole; a failure is logged with
  \<open>console.error\<close> and leaves the file list as it was.
\<close>

theorem refresh_result_applied_or_kept:
  "lookup i (pending s) = Some (List_files r, RefreshFileList) \<Longrightarrow>
   fileList (step (Settle i (Resolved (Files files))) s) = files \<and>
   fileList (step (Settle i (Rejected err)) s) = fileList s \<and>
   console (step (Settle i (Rejected err)) s) =
     console s @ [ConsoleError ''Failed to list files'' err]"
  by (simp add: step_Settle_files step_Settle_files_rejected)

theorem refresh_result_applied_or_kept_witness:
  "lookup 0 (pending (mount initial)) = Some (List_files ''/path/to/project'', RefreshFileList) \<and>
   fileList (step (Settle 0 (Resolved (Files [''/path/to/project/a.rs'']))) (mount initial))
     = [''/path/to/project/a.rs''] \<and>
   fileList (step (Settle 0 (Rejected (HostError ''unreadable''))) (mount initial)) = [] \<and>
   console (step (Settle 0 (Rejected (HostError ''unreadable''))) (mount initial))
     = [ConsoleError ''Failed to list files'' (HostError ''unreadable'')]"
proof -
  have h: "lookup 0 (pending (mount initial))
      = Some (List_files ''/path/to/project'', RefreshFileList)"
    by (simp add: shell_defs)
  have f: "fileList (mount initial) = []" and c: "console (mount initial) = []"
    by (simp_all add: shell_defs)
  from refresh_result_applied_or_kept [OF h, of "[''/path/to/project/a.rs'']" "HostError ''unreadable''"]
    h f c
  show ?thesis by simp
qed

text \<open>
  Claim C1, as amended. A listing is applied whenever it succeeds, whatever root it was issued
  for: when the root changes from \<open>a\<close> to \<open>b\<close> while the listing of \<open>a\<close> is
  outstanding and the listing of \<open>b\<close> resolves first, the late result for \<open>a\<close> replaces
  the list derived from \<open>b\<close>, while the root stays \<open>b\<close>.
\<close>

theorem late_response_replaces_list:
  assumes "a \<noteq> projectRoot (run es (mount initial))" and "b \<noteq> a"
  shows "projectRoot (rootChangeRace a b fa fb (run es (mount initial))) = b \<and>
         fileList (rootChangeRace a b fa fb (run es (mount initial))) = fa"
proof -
  define s where "s = run es (mount initial)"
  define n where "n = nextId s"
  have fresh: "list_all (\<lambda>p. fst p < n) (pending s)"
    using reachable_fresh [of es] by (simp add: freshIds_def s_def n_def)
  define s1 where "s1 = step (InputChange a) s"
  define s2 where "s2 = step (InputChange b) s1"
  define s3 where "s3 = step (Settle (n + 2) (Resolved (Files fb))) s2"
  define s4 where "s4 = step (Settle n (Resolved (Files fa))) s3"
  have s1: "s1 = s\<lparr> projectRoot := a,
        pending := pending s @ [(n, List_files a, RefreshFileList),
                                 (Suc n, Load_buffer, EffectLoad)],
        nextId := Suc (Suc n) \<rparr>"
    using assms(1) by (simp add: s1_def s_def n_def step_rootChange)
  have s2: "s2 = s1\<lparr> projectRoot := b,
        pending := pending s1 @ [(n + 2, List_files b, RefreshFileList),
                                  (n + 3, Load_buffer, EffectLoad)],
        nextId := n + 4 \<rparr>"
    using assms(2) by (simp add: s2_def step_rootChange s1)
  have l2: "lookup (n + 2) (pending s2) = Some (List_files b, RefreshFileList)"
    using fresh by (simp add: s2 s1 lookup_append lookup_fresh)
  have s3: "s3 = s2\<lparr> fileList := fb, pending := filter (\<lambda>p. fst p \<noteq> n + 2) (pending s2) \<rparr>"
    using l2 by (simp add: s3_def step_Settle_files)
  have l3: "lookup n (pending s3) = Some (List_files a, RefreshFileList)"
    using fresh by (simp add: s3 s2 s1 lookup_filter lookup_append lookup_fresh)
  have s4: "s4 = s3\<lparr> fileList := fa, pending := filter (\<lambda>p. fst p \<noteq> n) (pending s3) \<rparr>"
    using l3 by (simp add: s4_def step_Settle_files)
  have "rootChangeRace a b fa fb s = s4"
    by (simp add: rootChangeRace_def s4_def s3_def s2_def s1_def n_def)
  then show ?thesis
    by (simp add: s4 s3 s2 s1 s_def)
qed

theorem late_response_replaces_list_witness:
  "''/a'' \<noteq> projectRoot (run [] (mount initial)) \<and> ''/b'' \<noteq> ''/a'' \<and>
   projectRoot (rootChangeRace ''/a'' ''/b'' [''/a/x.rs''] [''/b/y.rs'']
     (run [] (mount initial))) = ''/b'' \<and>
   fileList (rootChangeRace ''/a'' ''/b'' [''/a/x.rs''] [''/b/y.rs'']
     (run [] (mount initial))) = [''/a/x.rs'']"
proof -
  have h1: "''/a'' \<noteq> projectRoot (run [] (mount initial))"
    by (simp add: shell_defs)
  have h2: "''/b'' \<noteq> ''/a''" by simp
  from late_response_replaces_list [OF h1 h2, of "[''/a/x.rs'']" "[''/b/y.rs'']"] h1
  show ?thesis by simp
qed

text \<open>
  Claim C1 as stated fails. The listing issued at mount for \<open>/path/to/project\<close> (request
  0) is outstanding when the root changes to \<open>/proj\<close>; the listing of \<open>/proj\<close>
  (request 2) resolves first and gives the list; the late response to request 0 then
  replaces it.
\<close>

theorem late_response_counterexample:
  "lookup 0 (pending (run [InputChange ''/proj'',
       Settle 2 (Resolved (Files [''/proj/a.rs'']))] (mount initial)))
     = Some (List_files ''/path/to/project'', RefreshFileList) \<and>
   projectRoot (run [InputChange ''/proj'',
       Settle 2 (Resolved (Files [''/proj/a.rs'']))] (mount initial)) = ''/proj'' \<and>
   fileList (run [InputChange ''/proj'',
       Settle 2 (Resolved (Files [''/proj/a.rs'']))] (mount initial)) = [''/proj/a.rs''] \<and>
   fileList (run [InputChange ''/proj'',
       Settle 2 (Resolved (Files [''/proj/a.rs''])),
       Settle 0 (Resolved (Files [''/path/to/project/old.rs'']))] (mount initial))
     = [''/path/to/project/old.rs'']"
  by (simp add: shell_defs)

text \<open>
  Claim C4. At mount the first effect issues \<open>load_buffer\<close> (request 1). When it is
  rejected, whatever the error, the buffer text is still the placeholder, the console holds
  the one diagnostic line, and nothing escapes as a failure.
\<close>

theorem mount_load_rejected_keeps_placeholder:
  "lookup 1 (pending (mount initial)) = Some (Load_buffer, EffectLoad) \<and>
   code (step (Settle 1 (Rejected err)) (mount initial))
     = ''// Welcome to pIDEstyx IDE!'' @ [CHR 0x0A] \<and>
   console (step (Settle 1 (Rejected err)) (mount initial))
     = [ConsoleLog ''No existing buffer found''] \<and>
   uncaught (step (Settle 1 (Rejected err)) (mount initial)) = []"
  by (simp add: shell_defs placeholder_def)

lemma step_Settle_effectLoad:
  "lookup i (pending s) = Some (c, EffectLoad) \<Longrightarrow>
   step (Settle i (Resolved (Text t))) s =
     s\<lparr> code := t, pending := filter (\<lambda>p. fst p \<noteq> i) (pending s) \<rparr>"
  by (simp add: step_def handle_def settled_def)

text \<open>
  Claim C10. The mount issues \<open>list_files\<close> for the root and \<open>load_buffer\<close>; so does
  every change of the root, in any reachable state, for the new root. When that
  \<open>load_buffer\<close> succeeds with \<open>t\<close>, the buffer text is \<open>t\<close>, whatever was typed
  into the editor in between (\<open>v\<close>).
\<close>

theorem root_change_reloads:
  assumes "r \<noteq> projectRoot (run es (mount initial))"
  shows "pending (mount initial)
           = [(0, List_files (projectRoot initial), RefreshFileList), (1, Load_buffer, EffectLoad)] \<and>
         projectRoot (step (InputChange r) (run es (mount initial))) = r \<and>
         pending (step (InputChange r) (run es (mount initial)))
           = pending (run es (mount initial)) @
             [(nextId (run es (mount initial)), List_files r, RefreshFileList),
              (Suc (nextId (run es (mount initial))), Load_buffer, EffectLoad)] \<and>
         code (run [InputChange r, EditorChange v,
                    Settle (Suc (nextId (run es (mount initial)))) (Resolved (Text t))]
                 (run es (mount initial))) = t"
proof -
  define s where "s = run es (mount initial)"
  define n where "n = nextId s"
  have fresh: "list_all (\<lambda>p. fst p < n) (pending s)"
    using reachable_fresh [of es] by (simp add: freshIds_def s_def n_def)
  have m: "pending (mount initial)
      = [(0, List_files (projectRoot initial), RefreshFileList), (1, Load_buffer, EffectLoad)]"
    by (simp add: shell_defs)
  define s1 where "s1 = step (InputChange r) s"
  define s2 where "s2 = step (EditorChange v) s1"
  have s1: "s1 = s\<lparr> projectRoot := r,
        pending := pending s @ [(n, List_files r, RefreshFileList),
                                 (Suc n, Load_buffer, EffectLoad)],
        nextId := Suc (Suc n) \<rparr>"
    using assms by (simp add: s1_def s_def n_def step_rootChange)
  have p2: "pending s2 = pending s1"
    by (simp add: s2_def step_EditorChange handleEditorChange_def)
  have "lookup (Suc n) (pending s2) = Some (Load_buffer, EffectLoad)"
    using fresh by (simp add: p2 s1 lookup_append lookup_fresh)
  then have "code (step (Settle (Suc n) (Resolved (Text t))) s2) = t"
    by (simp add: step_Settle_effectLoad)
  then have "code (run [InputChange r, EditorChange v, Settle (Suc n) (Resolved (Text t))] s) = t"
    by (simp add: s2_def s1_def)
  with m s1 show ?thesis
    by (simp add: s_def [symmetric] n_def [symmetric] s1_def [symmetric])
qed

theorem root_change_reloads_witness:
  "''/proj'' \<noteq> projectRoot (run [] (mount initial)) \<and>
   pending (step (InputChange ''/proj'') (run [] (mount initial)))
     = [(0, List_files ''/path/to/project'', RefreshFileList), (1, Load_buffer, EffectLoad),
        (2, List_files ''/proj'', RefreshFileList), (3, Load_buffer, EffectLoad)] \<and>
   code (run [InputChange ''/proj'', EditorChange (Some ''unsaved edits''),
              Settle 3 (Resolved (Text ''persisted text''))]
           (run [] (mount initial))) = ''persisted text''"
proof -
  have h: "''/proj'' \<noteq> projectRoot (run [] (mount initial))"
    by (simp add: shell_defs)
  have n: "nextId (mount initial) = 2" and r: "projectRoot initial = ''/path/to/project''"
    by (simp_all add: shell_defs)
  from root_change_reloads [OF h, of "Some ''unsaved edits''" "''persisted text''"] h
  show ?thesis
    by (simp add: n r eval_nat_numeral)
qed

text \<open>
  Claim C3. In \<open>App.tsx\<close> a rejected \<open>save_buffer\<close> is not retried and leaves the buffer
  text alone, but \<open>handleSave\<close> does not catch it: the console stays empty and the
  rejection is unhandled. The \<open>handleSave\<close> of the simpler variant catches and logs it.
\<close>

theorem save_rejection_not_logged:
  "console (run [ClickSave, Settle 2 (Rejected (HostError ''disk full''))] (mount initial)) = [] \<and>
   uncaught (run [ClickSave, Settle 2 (Rejected (HostError ''disk full''))] (mount initial))
     = [UnhandledRejection (HostError ''disk full'')] \<and>
   code (run [ClickSave, Settle 2 (Rejected (HostError ''disk full''))] (mount initial))
     = code (mount initial) \<and>
   pending (run [ClickSave, Settle 2 (Rejected (HostError ''disk full''))] (mount initial))
     = pending (mount initial)"
  by (simp add: shell_defs)

lemma simple_variant_logs_save_failure:
  "console (step (Settle 0 (Rejected err)) (handleSaveSimple initial))
     = [ConsoleError ''Failed to save'' err] \<and>
   uncaught (step (Settle 0 (Rejected err)) (handleSaveSimple initial)) = [] \<and>
   code (step (Settle 0 (Rejected err)) (handleSaveSimple initial)) = code initial \<and>
   pending (step (Settle 0 (Rejected err)) (handleSaveSimple initial)) = []"
  by (simp add: shell_defs)

section \<open>Leaf names\<close>

lemma js_split_nonempty: "js_split sep p \<noteq> []"
  by (induction p) (auto split: list.splits)

lemma js_split_whole: "sep \<notin> set p \<Longrightarrow> js_split sep p = [p]"
  by (induction p) auto

lemma js_split_append:
  "js_split sep (a @ sep # b) = js_split sep a @ js_split sep b"
proof (induction a)
  case Nil
  then show ?case by simp
next
  case (Cons c cs)
  obtain w ws where "js_split sep cs = w # ws"
    using js_split_nonempty [of sep cs] by (cases "js_split sep cs") auto
  with Cons.IH show ?case by simp
qed

lemma last_js_split_after:
  "sep \<notin> set b \<Longrightarrow> last (js_split sep (a @ sep # b)) = b"
  by (simp add: js_split_append js_split_whole)

lemma afterFinalSeparator_after:
  "CHR ''/'' \<notin> set b \<Longrightarrow> afterFinalSeparator (a @ CHR ''/'' # b) = b"
  by (simp add: afterFinalSeparator_def takeWhile_append)

lemma afterFinalSeparator_whole:
  "CHR ''/'' \<notin> set p \<Longrightarrow> afterFinalSeparator p = p"
proof -
  assume "CHR ''/'' \<notin> set p"
  then have "takeWhile (\<lambda>c. c \<noteq> CHR ''/'') (rev p) = rev p"
    by (auto simp: takeWhile_eq_all_conv)
  then show ?thesis by (simp only: afterFinalSeparator_def rev_rev_ident)
qed

lemma pop_js_split: "pop (js_split (CHR ''/'') p) = Some (afterFinalSeparator p)"
proof (cases "CHR ''/'' \<in> set p")
  case True
  then obtain a b where p: "p = a @ CHR ''/'' # b" and b: "CHR ''/'' \<notin> set b"
    by (auto dest: split_list_last)
  from b show ?thesis
    by (simp add: p pop_def js_split_nonempty last_js_split_after afterFinalSeparator_after)
next
  case False
  then show ?thesis
    by (simp add: pop_def js_split_whole afterFinalSeparator_whole)
qed

text \<open>
  Claim C6. The rows are rendered in the order of the file list; the key of a row is the full
  path and its text is the substring after the final \<open>/\<close> (the whole path when it has
  none). For the root \<open>/proj\<close> and the host result \<open>/proj/a.rs\<close>, \<open>/proj/sub/b.rs\<close>
  the texts are \<open>a.rs\<close>, \<open>b.rs\<close>.
\<close>

theorem leaf_names_in_host_order:
  "map fst (fileRows files) = files \<and>
   map snd (fileRows files) = map (\<lambda>path. Some (afterFinalSeparator path)) files \<and>
   fileRows (fileList (run [InputChange ''/proj'',
       Settle 2 (Resolved (Files [''/proj/a.rs'', ''/proj/sub/b.rs'']))] (mount initial)))
     = [(''/proj/a.rs'', Some ''a.rs''), (''/proj/sub/b.rs'', Some ''b.rs'')]"
proof -
  have "map fst (fileRows files) = files"
    by (simp add: fileRows_def comp_def)
  moreover have "map snd (fileRows files) = map (\<lambda>path. Some (afterFinalSeparator path)) files"
    by (simp add: fileRows_def comp_def pop_js_split)
  moreover have "fileList (run [InputChange ''/proj'',
       Settle 2 (Resolved (Files [''/proj/a.rs'', ''/proj/sub/b.rs'']))] (mount initial))
     = [''/proj/a.rs'', ''/proj/sub/b.rs'']"
    by (simp add: shell_defs)
  moreover have "fileRows [''/proj/a.rs'', ''/proj/sub/b.rs'']
     = [(''/proj/a.rs'', Some ''a.rs''), (''/proj/sub/b.rs'', Some ''b.rs'')]"
    by (simp add: fileRows_def pop_def)
  ultimately show ?thesis by simp
qed

section \<open>Load, then save\<close>

lemma step_Settle_handleLoad:
  "lookup i (pending s) = Some (c, HandleLoad) \<Longrightarrow>
   step (Settle i (Resolved (Text t))) s =
     s\<lparr> code := t, pending := filter (\<lambda>p. fst p \<noteq> i) (pending s) \<rparr>"
  by (simp add: step_def handle_def settled_def)

lemma step_Settle_handleSave_code:
  assumes "lookup i (pending s) = Some (c, HandleSave)"
  shows "code (step (Settle i r) s) = code s"
proof (cases r)
  case (Resolved v)
  with assms show ?thesis
    by (cases v) (simp_all add: step_def handle_def settled_def)
next
  case (Rejected err)
  with assms show ?thesis
    by (simp add: step_def handle_def settled_def)
qed

lemma host_update_same: "persisted h = Some t \<Longrightarrow> h\<lparr> persisted := Some t \<rparr> = h"
  by (cases h) simp

lemma load_served:
  assumes "persisted h = Some t"
  shows "serve (nextId (run es (mount initial))) (step ClickLoad (run es (mount initial)), h)
    = ((run es (mount initial))\<lparr> code := t, nextId := Suc (nextId (run es (mount initial))) \<rparr>, h)"
proof -
  define s where "s = run es (mount initial)"
  define n where "n = nextId s"
  have fresh: "list_all (\<lambda>p. fst p < n) (pending s)"
    using reachable_fresh [of es] by (simp add: freshIds_def s_def n_def)
  have s1: "step ClickLoad s = s\<lparr> pending := pending s @ [(n, Load_buffer, HandleLoad)], nextId := Suc n \<rparr>"
    by (simp add: step_ClickLoad handleLoad_def invoke_def n_def)
  have l: "lookup n (pending (step ClickLoad s)) = Some (Load_buffer, HandleLoad)"
    using fresh by (simp add: s1 lookup_append lookup_fresh)
  have f: "filter (\<lambda>p. fst p \<noteq> n) (pending s) = pending s"
    using fresh by (auto simp: list_all_iff intro!: filter_True)
  have "serve n (step ClickLoad s, h) = (s\<lparr> code := t, nextId := Suc n \<rparr>, h)"
    using assms l by (simp add: serve_def hostExec_def step_Settle_handleLoad) (simp add: s1 f)
  then show ?thesis by (simp add: s_def n_def)
qed

text \<open>
  Claim C9. In any reachable state, when the host holds a buffer \<open>t\<close>, a load followed at
  once by a save sends \<open>save_buffer\<close> with exactly \<open>t\<close>, the buffer text is \<open>t\<close>, and
  the host is left as it was.
\<close>

theorem load_then_save_roundtrip:
  assumes "persisted h = Some t"
  shows "savedContents (run es (mount initial)) h = Some (Save_buffer t) \<and>
         snd (loadThenSave (run es (mount initial)) h) = h \<and>
         code (fst (loadThenSave (run es (mount initial)) h)) = t"
proof -
  define s where "s = run es (mount initial)"
  define n where "n = nextId s"
  define s1 where "s1 = s\<lparr> code := t, nextId := Suc n \<rparr>"
  have fresh: "list_all (\<lambda>p. fst p < n) (pending s)"
    using reachable_fresh [of es] by (simp add: freshIds_def s_def n_def)
  have ld: "serve n (step ClickLoad s, h) = (s1, h)"
    using load_served [OF assms, of es] by (simp add: s_def n_def s1_def)
  have s2: "step ClickSave s1
      = s1\<lparr> pending := pending s @ [(Suc n, Save_buffer t, HandleSave)], nextId := Suc (Suc n) \<rparr>"
    by (simp add: step_ClickSave handleSave_def invoke_def s1_def)
  have l: "lookup (Suc n) (pending (step ClickSave s1)) = Some (Save_buffer t, HandleSave)"
    using fresh by (simp add: s2 lookup_append lookup_fresh)
  have sent: "savedContents s h = Some (Save_buffer t)"
    using l by (simp add: savedContents_def ld n_def [symmetric] s1_def)
  have sv: "loadThenSave s h = serve (Suc n) (step ClickSave s1, h)"
    by (simp add: loadThenSave_def ld n_def [symmetric] s1_def)
  have h': "snd (serve (Suc n) (step ClickSave s1, h)) = h"
    using l assms by (simp add: serve_def hostExec_def host_update_same)
  have "code (fst (serve (Suc n) (step ClickSave s1, h))) = code (step ClickSave s1)"
    using l by (simp add: serve_def step_Settle_handleSave_code)
  moreover have "code (step ClickSave s1) = t"
    by (simp add: step_ClickSave handleSave_def invoke_def s1_def)
  ultimately have "code (fst (serve (Suc n) (step ClickSave s1, h))) = t"
    by simp
  with sent sv h' show ?thesis by (simp add: s_def)
qed

theorem load_then_save_roundtrip_witness:
  "persisted \<lparr> persisted = Some ''fn main() {}'', writable = True, listing = (\<lambda>r. Inr []) \<rparr>
     = Some ''fn main() {}'' \<and>
   savedContents (run [] (mount initial))
     \<lparr> persisted = Some ''fn main() {}'', writable = True, listing = (\<lambda>r. Inr []) \<rparr>
     = Some (Save_buffer ''fn main() {}'') \<and>
   snd (loadThenSave (run [] (mount initial))
     \<lparr> persisted = Some ''fn main() {}'', writable = True, listing = (\<lambda>r. Inr []) \<rparr>)
     = \<lparr> persisted = Some ''fn main() {}'', writable = True, listing = (\<lambda>r. Inr []) \<rparr> \<and>
   code (fst (loadThenSave (run [] (mount initial))
     \<lparr> persisted = Some ''fn main() {}'', writable = True, listing = (\<lambda>r. Inr []) \<rparr>))
     = ''fn main() {}''"
proof -
  have h: "persisted \<lparr> persisted = Some ''fn main() {}'', writable = True,
      listing = (\<lambda>r. Inr []) \<rparr> = Some ''fn main() {}''"
    by simp
  from load_then_save_roundtrip [OF h, of "[]"] h show ?thesis
    by simp
qed

end
